theory Spec2Isabelle
  imports Complex_Main "HOL-Library.Log_Nat"
begin

section \<open>JavaScript values used by the policies\<close>

text \<open>
  The pixel bounds of \<^verbatim>\<open>text-fit.js\<close> are JavaScript numbers, that is, IEEE 754 doubles.
  The only caller in the repository produces them with \<^verbatim>\<open>parseInt(..., 10)\<close>, whose results
  are integer-valued doubles, plus or minus \<^verbatim>\<open>Infinity\<close>, or \<^verbatim>\<open>NaN\<close>; the arithmetic of
  the search keeps them so. The model has exactly these numbers: \<open>Fin n\<close> stands for the
  double whose value is the integer \<open>n\<close> (every integer up to \<open>2^53\<close> in magnitude is one;
  above, only the multiples of a power of two are). The two zeros are not told apart: they
  compare, add and print alike. Fractions are not represented.
\<close>

datatype jsnum = Fin int | NaN | PosInf | NegInf

text \<open>The number of binary digits of a positive integer.\<close>

function bits :: "int \<Rightarrow> nat" where
  "bits n = (if n \<le> 0 then 0 else Suc (bits (n div 2)))"
  by pat_completeness auto
termination
  by (relation "measure nat") auto

declare bits.simps [simp del]

text \<open>
  The double nearest to an integer: integers up to \<open>2^53\<close> in magnitude are doubles. A
  larger one keeps its 53 leading binary digits \<open>m\<close>; the \<open>e\<close> digits cut off round it to
  the nearer of \<open>m * 2^e\<close> and \<open>(m + 1) * 2^e\<close>, to the one with even \<open>m\<close> if it is half
  way. A result of \<open>2^1024\<close> is beyond the largest double and becomes an infinity.
\<close>

definition rnd :: "int \<Rightarrow> jsnum" where
  "rnd x =
     (if \<bar>x\<bar> \<le> 2 ^ 53 then Fin x
      else (let a = \<bar>x\<bar>;
                e = bits a - 53;
                q = 2 ^ e;
                m = a div q;
                rest = a mod q;
                m' = (if q div 2 < rest \<or> (rest = q div 2 \<and> odd m) then m + 1 else m);
                v = m' * q
            in if 2 ^ 1024 \<le> v then (if x < 0 then NegInf else PosInf)
               else Fin (if x < 0 then - v else v)))"

text \<open>\<^verbatim>\<open>a <= b\<close>: false as soon as one side is \<^verbatim>\<open>NaN\<close>.\<close>

fun js_le :: "jsnum \<Rightarrow> jsnum \<Rightarrow> bool" where
  "js_le (Fin a) (Fin b) = (a \<le> b)"
| "js_le NaN _ = False"
| "js_le _ NaN = False"
| "js_le NegInf _ = True"
| "js_le _ PosInf = True"
| "js_le _ _ = False"

text \<open>\<^verbatim>\<open>a + b\<close> and \<^verbatim>\<open>a - b\<close>: the exact result, rounded to a double.\<close>

fun js_add :: "jsnum \<Rightarrow> jsnum \<Rightarrow> jsnum" where
  "js_add (Fin a) (Fin b) = rnd (a + b)"
| "js_add NaN _ = NaN"
| "js_add _ NaN = NaN"
| "js_add PosInf NegInf = NaN"
| "js_add NegInf PosInf = NaN"
| "js_add PosInf _ = PosInf"
| "js_add _ PosInf = PosInf"
| "js_add NegInf _ = NegInf"
| "js_add _ NegInf = NegInf"

fun js_sub :: "jsnum \<Rightarrow> jsnum \<Rightarrow> jsnum" where
  "js_sub (Fin a) (Fin b) = rnd (a - b)"
| "js_sub NaN _ = NaN"
| "js_sub _ NaN = NaN"
| "js_sub PosInf PosInf = NaN"
| "js_sub NegInf NegInf = NaN"
| "js_sub PosInf _ = PosInf"
| "js_sub _ NegInf = PosInf"
| "js_sub NegInf _ = NegInf"
| "js_sub _ PosInf = NegInf"

text \<open>
  \<^verbatim>\<open>Math.floor(x / 2)\<close>. Halving a double is exact, and the half of an odd integer double
  (which is below \<open>2^53\<close>) is a half-integer, which \<^typ>\<open>jsnum\<close> does not hold; so the
  division and the rounding towards minus infinity are one operation (\<open>div\<close> on
  \<^typ>\<open>int\<close> rounds towards minus infinity as well).
\<close>

fun js_floor_half :: "jsnum \<Rightarrow> jsnum" where
  "js_floor_half (Fin a) = Fin (a div 2)"
| "js_floor_half x = x"

subsection \<open>Numbers to strings and back\<close>

text \<open>
  Strings are lists of 8-bit characters, read as the code points below 256; attribute and
  style values are taken to be such strings.
\<close>

definition digit_char :: "nat \<Rightarrow> char" where
  "digit_char d = char_of (48 + d)"

text \<open>The decimal digits of a non-negative integer.\<close>

function digits :: "int \<Rightarrow> string" where
  "digits n =
     (if n < 10 then [digit_char (nat n)] else digits (n div 10) @ [digit_char (nat (n mod 10))])"
  by pat_completeness auto
termination
  by (relation "measure nat") auto

declare digits.simps [simp del]

text \<open>
  The digits JavaScript prints for a double \<open>x\<close> above \<open>2^53\<close> are those of the shortest
  decimal that reads back as \<open>x\<close>, the closest to \<open>x\<close> if there are several. \<open>nearby x j\<close>
  looks for such a decimal among the multiples of \<open>10^j\<close> next to \<open>x\<close>, and tries fewer
  trailing zeros if there is none.
\<close>

fun nearby :: "int \<Rightarrow> nat \<Rightarrow> int" where
  "nearby x 0 = x"
| "nearby x (Suc j) =
     (let p = 10 ^ Suc j;
          lower = (x div p) * p;
          upper = lower + p;
          okl = (0 < lower \<and> rnd lower = Fin x);
          oku = (rnd upper = Fin x)
      in if okl \<and> oku then
           (if x - lower < upper - x then lower
            else if upper - x < x - lower then upper
            else if even (lower div p) then lower else upper)
         else if okl then lower
         else if oku then upper
         else nearby x j)"

text \<open>
  A decimal of more than 21 digits is printed in exponent notation: the first significant
  digit, the other significant digits after a point if there are any, and the exponent.
\<close>

definition exponent_form :: "string \<Rightarrow> string" where
  "exponent_form ds =
     (let more = rev (dropWhile (\<lambda>c. c = CHR ''0'') (rev (tl ds)))
      in hd ds # (if more = [] then [] else CHR ''.'' # more)
           @ ''e+'' @ digits (int (length ds) - 1))"

definition string_of_double :: "int \<Rightarrow> string" where
  "string_of_double x =
     (if x \<le> 2 ^ 53 then digits x
      else (let ds = digits (nearby x (length (digits x)))
            in if length ds \<le> 21 then ds else exponent_form ds))"

text \<open>\<^verbatim>\<open>String(n)\<close> for the numbers of the model.\<close>

fun toString :: "jsnum \<Rightarrow> string" where
  "toString NaN = ''NaN''"
| "toString PosInf = ''Infinity''"
| "toString NegInf = ''-Infinity''"
| "toString (Fin i) =
     (if i < 0 then CHR ''-'' # string_of_double (- i) else string_of_double i)"

text \<open>The template literal \<^verbatim>\<open>`${n}px`\<close>.\<close>

definition px :: "jsnum \<Rightarrow> string" where
  "px n = toString n @ ''px''"

definition is_digit :: "char \<Rightarrow> bool" where
  "is_digit c = (48 \<le> (of_char c :: nat) \<and> (of_char c :: nat) \<le> 57)"

definition digit_val :: "char \<Rightarrow> int" where
  "digit_val c = int (of_char c) - 48"

definition int_of_digits :: "string \<Rightarrow> int" where
  "int_of_digits ds = foldl (\<lambda>acc c. acc * 10 + digit_val c) 0 ds"

text \<open>
  The white space \<^verbatim>\<open>parseInt\<close> skips, as far as it lies below code point 256: tab, line
  feed, vertical tab, form feed, carriage return, space and no-break space.
\<close>

definition is_space :: "char \<Rightarrow> bool" where
  "is_space c = (of_char c \<in> {9::nat, 10, 11, 12, 13, 32, 160})"

text \<open>
  \<^verbatim>\<open>parseInt(s, 10)\<close>: skip leading white space, read an optional sign, take the longest
  run of decimal digits; no digit at all gives \<^verbatim>\<open>NaN\<close>. Whatever follows the digits is
  ignored. The result is the double nearest to the integer the digits denote (past the
  twentieth significant digit the language lets an implementation read zeros instead).
\<close>

definition parseInt10 :: "string \<Rightarrow> jsnum" where
  "parseInt10 s =
     (let t = dropWhile is_space s;
          neg = (t \<noteq> [] \<and> hd t = CHR ''-'');
          u = (if t \<noteq> [] \<and> (hd t = CHR ''-'' \<or> hd t = CHR ''+'') then tl t else t);
          z = takeWhile is_digit u
      in if z = [] then NaN
         else rnd ((if neg then - 1 else 1) * int_of_digits z))"

text \<open>A value that may sit in a field of the options object.\<close>

datatype jsval = Undefined | Number jsnum | Str string

record opts =
  minPx :: jsval
  maxPx :: jsval

text \<open>
  \<^verbatim>\<open>typeof v === "number" ? v : d\<close>. \<^verbatim>\<open>NaN\<close> and the infinities have type
  \<^verbatim>\<open>"number"\<close>.
\<close>

fun number_or :: "jsval \<Rightarrow> jsnum \<Rightarrow> jsnum" where
  "number_or (Number n) d = n"
| "number_or _ d = d"

section \<open>The target element\<close>

text \<open>
  What the platform measures for an element: the extent of its content (scroll sizes) and
  of its visible box (client sizes), in integer pixels.
\<close>

record geometry =
  scrollHeight :: int
  clientHeight :: int
  scrollWidth :: int
  clientWidth :: int

text \<open>
  The element is owned by the platform. The model keeps the inline style property
  \<^verbatim>\<open>style.fontSize\<close> as the string the code assigns, the attributes, the layout the
  platform computes for a given inline font size (content, box and loaded fonts are fixed
  while one synchronous run lasts, so they are part of the function), and every other
  property of the element as one opaque value.
\<close>

record 'p element =
  fontSize :: string
  attributes :: "string \<rightharpoonup> string"
  layout :: "string \<Rightarrow> geometry"
  props :: 'p

text \<open>
  A run of the policy on one element. Besides the element it records what the run did:
  the values assigned to \<^verbatim>\<open>style.fontSize\<close> in order, the number of calls of
  \<^verbatim>\<open>isOverflowing\<close> (each forces a layout), and the number of executions of the loop body.
\<close>

record 'p run =
  elem :: "'p element"
  writes :: "string list"
  reads :: nat
  rounds :: nat

definition start :: "'p element \<Rightarrow> 'p run" where
  "start el = \<lparr>elem = el, writes = [], reads = 0, rounds = 0\<rparr>"

text \<open>\<^verbatim>\<open>el.style.fontSize = v\<close>\<close>

definition setFontSize :: "string \<Rightarrow> 'p run \<Rightarrow> 'p run" where
  "setFontSize v r = r\<lparr>elem := (elem r)\<lparr>fontSize := v\<rparr>, writes := writes r @ [v]\<rparr>"

section \<open>text-fit.js\<close>

text \<open>
  \<^verbatim>\<open>
  function isOverflowing(el){
    const overflowH = el.scrollHeight - el.clientHeight > 1;
    const overflowW = el.scrollWidth - el.clientWidth > 1;
    return overflowH || overflowW;
  }
  \<close>
\<close>

definition isOverflowing :: "'p element \<Rightarrow> bool" where
  "isOverflowing el =
     (let g = layout el (fontSize el);
          overflowH = (scrollHeight g - clientHeight g > 1);
          overflowW = (scrollWidth g - clientWidth g > 1)
      in overflowH \<or> overflowW)"

text \<open>A call of \<^verbatim>\<open>isOverflowing\<close> inside a run: the answer, and the run with the call counted.\<close>

definition measured :: "'p run \<Rightarrow> bool \<times> 'p run" where
  "measured r = (isOverflowing (elem r), r\<lparr>reads := Suc (reads r)\<rparr>)"

text \<open>
  The loop of \<^verbatim>\<open>fitText\<close>:
  \<^verbatim>\<open>
  while (lo <= hi){
    const mid = Math.floor((lo + hi) / 2);
    el.style.fontSize = `${mid}px`;
    if (isOverflowing(el)){ hi = mid - 1; } else { best = mid; lo = mid + 1; }
  }
  \<close>
  Nothing in the code makes the loop end: where \<^verbatim>\<open>mid - 1\<close> or \<^verbatim>\<open>mid + 1\<close> rounds
  back to \<^verbatim>\<open>mid\<close> it runs for ever. The model is a partial function: \<open>None\<close> is a loop
  that does not return, \<open>Some\<close> holds \<open>best\<close> and the run when it does.
\<close>

partial_function (option) search ::
  "jsnum \<Rightarrow> jsnum \<Rightarrow> jsnum \<Rightarrow> 'p run \<Rightarrow> (jsnum \<times> 'p run) option" where
  "search lo hi best r =
     (if js_le lo hi then
        (let mid = js_floor_half (js_add lo hi);
             r1 = setFontSize (px mid) (r\<lparr>rounds := Suc (rounds r)\<rparr>);
             ov = fst (measured r1);
             r2 = snd (measured r1)
         in if ov then search lo (js_sub mid (Fin 1)) best r2
            else search (js_add mid (Fin 1)) hi mid r2)
      else Some (best, r))"

declare search.simps [code]

text \<open>
  A call of \<^verbatim>\<open>fitText\<close> returns the run, or does not return when its loop does not.
  \<^verbatim>\<open>
  export function fitText(el, opts = {}){
    const minPx = typeof opts.minPx === "number" ? opts.minPx : 12;
    const maxPx = typeof opts.maxPx === "number" ? opts.maxPx : 28;
    el.style.fontSize = `${maxPx}px`;
    if (isOverflowing(el) === false) return;
    let lo = minPx; let hi = maxPx; let best = minPx;
    while (lo <= hi){ ... }
    el.style.fontSize = `${best}px`;
  }
  \<close>
\<close>

definition fitText :: "'p element \<Rightarrow> opts \<Rightarrow> 'p run option" where
  "fitText el os =
     (let minPx = number_or (minPx os) (Fin 12);
          maxPx = number_or (maxPx os) (Fin 28);
          r0 = setFontSize (px maxPx) (start el);
          ov = fst (measured r0);
          r1 = snd (measured r0)
      in if ov = False then Some r1
         else (let lo = minPx; hi = maxPx; best = minPx
               in case search lo hi best r1 of
                    None \<Rightarrow> None
                  | Some (best', r2) \<Rightarrow> Some (setFontSize (px best') r2)))"

text \<open>
  \<^verbatim>\<open>el.getAttribute(name) || d\<close>: the default replaces a missing attribute
  (\<^verbatim>\<open>null\<close>) and an empty one (the empty string is falsy), nothing else.
\<close>

definition attr_or :: "'p element \<Rightarrow> string \<Rightarrow> string \<Rightarrow> string" where
  "attr_or el name d =
     (case attributes el name of None \<Rightarrow> d | Some v \<Rightarrow> if v = [] then d else v)"

text \<open>
  Per target, \<^verbatim>\<open>enableFitText\<close> reads the bounds once and hands them to every later
  call of \<^verbatim>\<open>fitText\<close> as the object \<^verbatim>\<open>{ minPx, maxPx }\<close>:
  \<^verbatim>\<open>
  const minPx = parseInt(el.getAttribute("data-fit-min") || "12", 10);
  const maxPx = parseInt(el.getAttribute("data-fit-max") || "28", 10);
  queueMicrotask(() => fitText(el, { minPx, maxPx }));
  \<close>
\<close>

definition fit_opts :: "'p element \<Rightarrow> opts" where
  "fit_opts el =
     (let minPx = parseInt10 (attr_or el ''data-fit-min'' ''12'');
          maxPx = parseInt10 (attr_or el ''data-fit-max'' ''28'')
      in \<lparr>minPx = Number minPx, maxPx = Number maxPx\<rparr>)"

text \<open>The first application of the policy to a target (the queued microtask).\<close>

definition enableFitText_first :: "'p element \<Rightarrow> 'p run option" where
  "enableFitText_first el = fitText el (fit_opts el)"

section \<open>layout-policy.js\<close>

text \<open>
  The container width comes from the platform (\<^verbatim>\<open>contentRect.width\<close>) and may be
  fractional; widths and gaps are finite numbers, modelled as reals with exact arithmetic.
  \<^verbatim>\<open>
  export function chooseColumns(width){
    if (width < 520) return 1;
    if (width < 900) return 2;
    if (width < 1200) return 3;
    if (width < 1600) return 4;
    return 5;
  }
  \<close>
\<close>

definition chooseColumns :: "real \<Rightarrow> int" where
  "chooseColumns width =
     (if width < 520 then 1
      else if width < 900 then 2
      else if width < 1200 then 3
      else if width < 1600 then 4
      else 5)"

text \<open>
  \<^verbatim>\<open>
  export function computeCardMin(width, cols, gapPx = 16){
    const totalGaps = gapPx * Math.max(0, cols - 1);
    const raw = Math.floor((width - totalGaps) / cols);
    return Math.max(raw, 240);
  }
  \<close>
  The default of \<^verbatim>\<open>gapPx\<close> is left to the caller. With \<open>cols = 0\<close> the quotient is
  infinite or \<^verbatim>\<open>NaN\<close> in JavaScript, which the integer result does not hold: the model
  answers \<open>None\<close> there (in HOL the quotient would silently be \<open>0\<close>).
\<close>

definition computeCardMin :: "real \<Rightarrow> int \<Rightarrow> real \<Rightarrow> int option" where
  "computeCardMin width cols gapPx =
     (let totalGaps = gapPx * real_of_int (max 0 (cols - 1))
      in if cols = 0 then None
         else (let raw = \<lfloor>(width - totalGaps) / real_of_int cols\<rfloor>
               in Some (max raw 240)))"

section \<open>Notions used to state the properties\<close>

text \<open>Whether the element overflows once its font size is set to \<open>s\<close> pixels.\<close>

definition overflowAt :: "'p element \<Rightarrow> int \<Rightarrow> bool" where
  "overflowAt el s = isOverflowing (el\<lparr>fontSize := px (Fin s)\<rparr>)"

text \<open>
  The fit result in the words of the specification: the largest size in \<open>[lo, hi]\<close> at
  which the element does not overflow, or \<open>lo\<close> if there is none.
\<close>

definition fit_result :: "'p element \<Rightarrow> int \<Rightarrow> int \<Rightarrow> int" where
  "fit_result el lo hi =
     (if \<forall>s\<in>{lo..hi}. overflowAt el s then lo
      else Max {s \<in> {lo..hi}. \<not> overflowAt el s})"

text \<open>
  Two consecutive calls on the same element with the same options: the second call acts on
  the element as the first one left it, and is not reached if the first does not return.
\<close>

definition refit :: "'p element \<Rightarrow> opts \<Rightarrow> 'p run option" where
  "refit el os = (case fitText el os of None \<Rightarrow> None | Some r \<Rightarrow> fitText (elem r) os)"

text \<open>The options object with two integer bounds.\<close>

definition bounds :: "int \<Rightarrow> int \<Rightarrow> opts" where
  "bounds lo hi = \<lparr>minPx = Number (Fin lo), maxPx = Number (Fin hi)\<rparr>"

text \<open>
  The search on integers with exact arithmetic, separated from the element: the sizes the
  loop tries, in order, and the value of \<open>best\<close> it ends with, for an overflow predicate
  \<open>P\<close>. The loop of the code is shown to agree with it where nothing is rounded.
\<close>

function tried :: "(int \<Rightarrow> bool) \<Rightarrow> int \<Rightarrow> int \<Rightarrow> int list" where
  "tried P lo hi =
     (if lo \<le> hi then
        (let mid = (lo + hi) div 2
         in mid # (if P mid then tried P lo (mid - 1) else tried P (mid + 1) hi))
      else [])"
  by pat_completeness auto
termination
  by (relation "measure (\<lambda>(P, lo, hi). nat (hi - lo + 1))") auto

declare tried.simps [simp del]

function best_of :: "(int \<Rightarrow> bool) \<Rightarrow> int \<Rightarrow> int \<Rightarrow> int \<Rightarrow> int" where
  "best_of P lo hi best =
     (if lo \<le> hi then
        (let mid = (lo + hi) div 2
         in if P mid then best_of P lo (mid - 1) best else best_of P (mid + 1) hi mid)
      else best)"
  by pat_completeness auto
termination
  by (relation "measure (\<lambda>(P, lo, hi, best). nat (hi - lo + 1))") auto

declare best_of.simps [simp del]

text \<open>What one execution of the loop body with midpoint \<open>m\<close> does to the run.\<close>

definition probe :: "int \<Rightarrow> 'p run \<Rightarrow> 'p run" where
  "probe m r = snd (measured (setFontSize (px (Fin m)) (r\<lparr>rounds := Suc (rounds r)\<rparr>)))"

subsection \<open>Example elements\<close>

definition fits :: geometry where
  "fits = \<lparr>scrollHeight = 40, clientHeight = 40, scrollWidth = 200, clientWidth = 200\<rparr>"

definition spills :: geometry where
  "spills = \<lparr>scrollHeight = 90, clientHeight = 40, scrollWidth = 200, clientWidth = 200\<rparr>"

definition blank :: "(string \<Rightarrow> geometry) \<Rightarrow> unit element" where
  "blank f = \<lparr>fontSize = [], attributes = Map.empty, layout = f, props = ()\<rparr>"

text \<open>An element that fits at every font size, and one that fits at none.\<close>

definition roomy :: "unit element" where
  "roomy = blank (\<lambda>s. fits)"

definition cramped :: "unit element" where
  "cramped = blank (\<lambda>s. spills)"

text \<open>
  Three lines of text in a box 42 pixels high: the content is three times the font size
  high, so it overflows at any size above 14.
\<close>

definition three_lines :: "unit element" where
  "three_lines =
     blank (\<lambda>s. case parseInt10 s of
                   Fin n \<Rightarrow> \<lparr>scrollHeight = 3 * n, clientHeight = 42,
                             scrollWidth = 200, clientWidth = 200\<rparr>
                 | _ \<Rightarrow> fits)"

text \<open>Content that overflows at any size above \<open>2^53\<close>.\<close>

definition brink :: "unit element" where
  "brink =
     blank (\<lambda>s. case parseInt10 s of
                   Fin n \<Rightarrow> if 2 ^ 53 < n then spills else fits
                 | _ \<Rightarrow> spills)"

text \<open>An element that fits at no font size but \<open>Infinitypx\<close>.\<close>

definition only_inf :: "unit element" where
  "only_inf = blank (\<lambda>s. if s = ''Infinitypx'' then fits else spills)"

text \<open>A target whose \<^verbatim>\<open>data-fit-min\<close> attribute is not a number; it fits at no size.\<close>

definition mistyped :: "unit element" where
  "mistyped = cramped\<lparr>attributes := [''data-fit-min'' \<mapsto> ''abc'']\<rparr>"

text \<open>
  The three lines of text as a target with \<^verbatim>\<open>data-fit-min="10"\<close> and
  \<^verbatim>\<open>data-fit-max="20"\<close>.
\<close>

definition wired :: "unit element" where
  "wired = three_lines\<lparr>attributes := [''data-fit-min'' \<mapsto> ''10'', ''data-fit-max'' \<mapsto> ''20'']\<rparr>"

text \<open>
  A style value that is an integer number of pixels: it reads as an integer and is exactly
  what the template literal prints for that integer.
\<close>

definition is_int_px :: "string \<Rightarrow> bool" where
  "is_int_px w = (case parseInt10 w of Fin n \<Rightarrow> w = px (Fin n) | _ \<Rightarrow> False)"

section \<open>Auxiliary facts\<close>

lemma rnd_exact: "\<bar>x\<bar> \<le> 2 ^ 53 \<Longrightarrow> rnd x = Fin x"
  by (simp add: rnd_def)

lemma search_stop: "\<not> js_le lo hi \<Longrightarrow> search lo hi best r = Some (best, r)"
  by (subst search.simps) simp

lemma probe_eq:
  "probe m r = r\<lparr>elem := (elem r)\<lparr>fontSize := px (Fin m)\<rparr>,
               writes := writes r @ [px (Fin m)],
               reads := Suc (reads r), rounds := Suc (rounds r)\<rparr>"
  by (simp add: probe_def measured_def setFontSize_def)

lemma overflowAt_layout:
  "overflowAt el s =
     (scrollHeight (layout el (px (Fin s))) - clientHeight (layout el (px (Fin s))) > 1 \<or>
      scrollWidth (layout el (px (Fin s))) - clientWidth (layout el (px (Fin s))) > 1)"
  by (simp add: overflowAt_def isOverflowing_def Let_def)

lemma overflowAt_fontSize [simp]: "overflowAt (el\<lparr>fontSize := v\<rparr>) = overflowAt el"
  by (rule ext) (simp add: overflowAt_layout)

lemma overflowAt_probe [simp]: "overflowAt (elem (probe m r)) = overflowAt (elem r)"
  by (simp add: probe_eq)

lemma search_step:
  assumes "lo \<le> hi" and "- (2 ^ 52) \<le> lo" and "hi \<le> 2 ^ 52"
  shows "search (Fin lo) (Fin hi) b r =
           (if overflowAt (elem r) ((lo + hi) div 2)
            then search (Fin lo) (Fin ((lo + hi) div 2 - 1)) b (probe ((lo + hi) div 2) r)
            else search (Fin ((lo + hi) div 2 + 1)) (Fin hi) (Fin ((lo + hi) div 2))
                   (probe ((lo + hi) div 2) r))"
proof -
  let ?mid = "(lo + hi) div 2"
  from assms have m: "lo \<le> ?mid" "?mid \<le> hi" by linarith+
  have "\<bar>lo + hi\<bar> \<le> 2 ^ 53" using assms by simp
  then have add: "rnd (lo + hi) = Fin (lo + hi)"
    by (rule rnd_exact)
  have "\<bar>?mid - 1\<bar> \<le> 2 ^ 53" "\<bar>?mid + 1\<bar> \<le> 2 ^ 53"
    using assms m by simp_all
  then have step: "rnd (?mid - 1) = Fin (?mid - 1)" "rnd (?mid + 1) = Fin (?mid + 1)"
    by (simp_all only: rnd_exact)
  show ?thesis
    using assms(1)
    by (subst search.simps)
       (simp add: add step Let_def probe_def measured_def setFontSize_def overflowAt_def)
qed

lemma search_Fin:
  "overflowAt (elem r) = P \<Longrightarrow> - (2 ^ 52) \<le> lo \<Longrightarrow> hi \<le> 2 ^ 52 \<Longrightarrow>
   search (Fin lo) (Fin hi) (Fin best) r =
     Some (Fin (best_of P lo hi best), fold probe (tried P lo hi) r)"
proof (induction P lo hi best arbitrary: r rule: best_of.induct)
  case (1 P lo hi best)
  show ?case
  proof (cases "lo \<le> hi")
    case False
    then show ?thesis
      by (simp add: search_stop best_of.simps [of P lo hi] tried.simps [of P lo hi])
  next
    case True
    let ?mid = "(lo + hi) div 2"
    from True have m: "lo \<le> ?mid" "?mid \<le> hi" by linarith+
    have P': "overflowAt (elem (probe ?mid r)) = P"
      using "1.prems"(1) by simp
    note step = search_step [OF True "1.prems"(2,3)]
    show ?thesis
    proof (cases "P ?mid")
      case Pm: True
      have "?mid - 1 \<le> 2 ^ 52" using m "1.prems"(3) by linarith
      from "1.IH"(1) [OF True refl Pm P' "1.prems"(2) this] True Pm "1.prems"(1) show ?thesis
        by (simp add: step best_of.simps [of P lo hi] tried.simps [of P lo hi] Let_def)
    next
      case nPm: False
      have "- (2 ^ 52) \<le> ?mid + 1" using m "1.prems"(2) by linarith
      from "1.IH"(2) [OF True refl nPm P' this "1.prems"(3)] True nPm "1.prems"(1) show ?thesis
        by (simp add: step best_of.simps [of P lo hi] tried.simps [of P lo hi] Let_def)
    qed
  qed
qed

lemma search_frame:
  assumes "search lo hi best r = Some (b, r')"
  shows "(elem r')\<lparr>fontSize := v\<rparr> = (elem r)\<lparr>fontSize := v\<rparr>"
proof -
  have "search lo hi best r = Some y \<Longrightarrow>
        (elem (snd y))\<lparr>fontSize := v\<rparr> = (elem r)\<lparr>fontSize := v\<rparr>" for y
  proof (rule search.raw_induct
      [where P = "\<lambda>lo hi best r y. (elem (snd y))\<lparr>fontSize := v\<rparr> = (elem r)\<lparr>fontSize := v\<rparr>"])
    fix f :: "jsnum \<Rightarrow> jsnum \<Rightarrow> jsnum \<Rightarrow> 'a run \<Rightarrow> (jsnum \<times> 'a run) option"
      and lo hi best r y
    assume IH: "\<And>lo hi best r y. f lo hi best r = Some y \<Longrightarrow>
                  (elem (snd y))\<lparr>fontSize := v\<rparr> = (elem r)\<lparr>fontSize := v\<rparr>"
      and body: "(if js_le lo hi
        then let mid = js_floor_half (js_add lo hi);
                 r1 = setFontSize (px mid) (r\<lparr>rounds := Suc (rounds r)\<rparr>);
                 ov = fst (measured r1); r2 = snd (measured r1)
             in if ov then f lo (js_sub mid (Fin 1)) best r2
                else f (js_add mid (Fin 1)) hi mid r2
        else Some (best, r)) = Some y"
    let ?mid = "js_floor_half (js_add lo hi)"
    let ?r2 = "snd (measured (setFontSize (px ?mid) (r\<lparr>rounds := Suc (rounds r)\<rparr>)))"
    have r2: "(elem ?r2)\<lparr>fontSize := v\<rparr> = (elem r)\<lparr>fontSize := v\<rparr>"
      by (simp add: measured_def setFontSize_def)
    show "(elem (snd y))\<lparr>fontSize := v\<rparr> = (elem r)\<lparr>fontSize := v\<rparr>"
    proof (cases "js_le lo hi")
      case False
      with body show ?thesis by auto
    next
      case True
      with body have "f lo (js_sub ?mid (Fin 1)) best ?r2 = Some y \<or>
                      f (js_add ?mid (Fin 1)) hi ?mid ?r2 = Some y"
        by (simp add: Let_def split: if_splits)
      then have "(elem (snd y))\<lparr>fontSize := v\<rparr> = (elem ?r2)\<lparr>fontSize := v\<rparr>"
        using IH by blast
      with r2 show ?thesis by simp
    qed
  qed
  from this [OF assms] show ?thesis by simp
qed

lemma fold_probe:
  "fold probe ms r =
     r\<lparr>elem := (elem r)\<lparr>fontSize := last (fontSize (elem r) # map (\<lambda>m. px (Fin m)) ms)\<rparr>,
       writes := writes r @ map (\<lambda>m. px (Fin m)) ms,
       reads := reads r + length ms, rounds := rounds r + length ms\<rparr>"
proof (induction ms arbitrary: r)
  case Nil
  show ?case by simp
next
  case (Cons m ms)
  let ?q = "probe m r"
  have "fold probe (m # ms) r = fold probe ms ?q"
    by simp
  also have "\<dots> = ?q\<lparr>elem := (elem ?q)\<lparr>fontSize := last (fontSize (elem ?q) # map (\<lambda>m. px (Fin m)) ms)\<rparr>,
       writes := writes ?q @ map (\<lambda>m. px (Fin m)) ms,
       reads := reads ?q + length ms, rounds := rounds ?q + length ms\<rparr>"
    by (rule Cons.IH)
  also have "\<dots> = r\<lparr>elem := (elem r)\<lparr>fontSize := last (fontSize (elem r) # map (\<lambda>m. px (Fin m)) (m # ms))\<rparr>,
       writes := writes r @ map (\<lambda>m. px (Fin m)) (m # ms),
       reads := reads r + length (m # ms), rounds := rounds r + length (m # ms)\<rparr>"
    by (simp add: probe_eq)
  finally show ?case .
qed

lemma best_of_range:
  "best_of P lo hi best = best \<or> (lo \<le> best_of P lo hi best \<and> best_of P lo hi best \<le> hi)"
proof (induction P lo hi best rule: best_of.induct)
  case (1 P lo hi best)
  show ?case
  proof (cases "lo \<le> hi")
    case False
    then show ?thesis by (simp add: best_of.simps [of P lo hi])
  next
    case True
    let ?mid = "(lo + hi) div 2"
    from True have m: "lo \<le> ?mid" "?mid \<le> hi" by linarith+
    show ?thesis
    proof (cases "P ?mid")
      case True
      have eq: "best_of P lo hi best = best_of P lo (?mid - 1) best"
        using \<open>lo \<le> hi\<close> True by (simp add: best_of.simps [of P lo hi] Let_def)
      from "1.IH"(1) [OF \<open>lo \<le> hi\<close> refl True] m show ?thesis
        unfolding eq by linarith
    next
      case False
      have eq: "best_of P lo hi best = best_of P (?mid + 1) hi ?mid"
        using \<open>lo \<le> hi\<close> False by (simp add: best_of.simps [of P lo hi] Let_def)
      from "1.IH"(2) [OF \<open>lo \<le> hi\<close> refl False] m show ?thesis
        unfolding eq by linarith
    qed
  qed
qed

lemma tried_nonempty: "lo \<le> hi \<Longrightarrow> tried P lo hi \<noteq> []"
  by (simp add: tried.simps [of P lo hi] Let_def)

lemma tried_empty: "hi < lo \<Longrightarrow> tried P lo hi = []"
  by (simp add: tried.simps [of P lo hi])

lemma best_of_empty: "hi < lo \<Longrightarrow> best_of P lo hi best = best"
  by (simp add: best_of.simps [of P lo hi])

lemma tried_length: "lo \<le> hi \<Longrightarrow> 2 ^ length (tried P lo hi) \<le> 2 * nat (hi - lo + 1)"
proof (induction P lo hi rule: tried.induct)
  case (1 P lo hi)
  let ?mid = "(lo + hi) div 2"
  from "1.prems" have m: "lo \<le> ?mid" "?mid \<le> hi" by linarith+
  show ?case
  proof (cases "P ?mid")
    case True
    have eq: "tried P lo hi = ?mid # tried P lo (?mid - 1)"
      using "1.prems" True by (simp add: tried.simps [of P lo hi] Let_def)
    show ?thesis
    proof (cases "lo \<le> ?mid - 1")
      case False
      then have "tried P lo (?mid - 1) = []" by (simp add: tried_empty)
      with "1.prems" show ?thesis unfolding eq by simp
    next
      case le: True
      from "1.IH"(1) [OF "1.prems" refl True le]
      have "2 ^ length (tried P lo (?mid - 1)) \<le> 2 * nat (?mid - 1 - lo + 1)" .
      also have "\<dots> \<le> nat (hi - lo + 1)" using m le by linarith
      finally show ?thesis unfolding eq by simp
    qed
  next
    case False
    have eq: "tried P lo hi = ?mid # tried P (?mid + 1) hi"
      using "1.prems" False by (simp add: tried.simps [of P lo hi] Let_def)
    show ?thesis
    proof (cases "?mid + 1 \<le> hi")
      case False
      then have "tried P (?mid + 1) hi = []" by (simp add: tried_empty)
      with "1.prems" show ?thesis unfolding eq by simp
    next
      case le: True
      from "1.IH"(2) [OF "1.prems" refl False le]
      have "2 ^ length (tried P (?mid + 1) hi) \<le> 2 * nat (hi - (?mid + 1) + 1)" .
      also have "\<dots> \<le> nat (hi - lo + 1)" using m le by linarith
      finally show ?thesis unfolding eq by simp
    qed
  qed
qed

lemma best_of_correct:
  assumes "\<forall>s t. A \<le> s \<and> s \<le> t \<and> t \<le> B \<and> P s \<longrightarrow> P t"
    and "A \<le> lo" and "hi \<le> B" and "lo \<le> hi + 1"
    and "\<forall>s. A \<le> s \<and> s < lo \<longrightarrow> \<not> P s"
    and "\<forall>s. hi < s \<and> s \<le> B \<longrightarrow> P s"
    and "best = (if lo = A then A else lo - 1)"
  shows "(\<forall>s. best_of P lo hi best < s \<and> s \<le> B \<longrightarrow> P s) \<and>
         A \<le> best_of P lo hi best \<and>
         (best_of P lo hi best \<le> B \<or> best_of P lo hi best = A) \<and>
         (\<not> P (best_of P lo hi best) \<or>
          (best_of P lo hi best = A \<and> (\<forall>s. A \<le> s \<and> s \<le> B \<longrightarrow> P s)))"
  using assms
proof (induction P lo hi best rule: best_of.induct)
  case (1 P lo hi best)
  note mono = "1.prems"(1)
  show ?case
  proof (cases "lo \<le> hi")
    case False
    with "1.prems"(4) have lo: "lo = hi + 1" by simp
    have eq: "best_of P lo hi best = best"
      using False by (simp add: best_of.simps [of P lo hi])
    show ?thesis
    proof (cases "lo = A")
      case True
      with "1.prems" lo show ?thesis unfolding eq by auto
    next
      case False
      with "1.prems" lo show ?thesis unfolding eq by auto
    qed
  next
    case True
    let ?mid = "(lo + hi) div 2"
    from True have m: "lo \<le> ?mid" "?mid \<le> hi" by linarith+
    show ?thesis
    proof (cases "P ?mid")
      case Pm: True
      have eq: "best_of P lo hi best = best_of P lo (?mid - 1) best"
        using True Pm by (simp add: best_of.simps [of P lo hi] Let_def)
      have above: "\<forall>s. ?mid - 1 < s \<and> s \<le> B \<longrightarrow> P s"
      proof (intro allI impI)
        fix s assume s: "?mid - 1 < s \<and> s \<le> B"
        with m "1.prems"(2) have "A \<le> ?mid \<and> ?mid \<le> s \<and> s \<le> B \<and> P ?mid"
          using Pm by linarith
        with mono show "P s" by blast
      qed
      show ?thesis
        unfolding eq
        by (rule "1.IH"(1) [OF True refl Pm mono "1.prems"(2) _ _ "1.prems"(5) above "1.prems"(7)])
           (use m "1.prems"(3) in linarith)+
    next
      case nPm: False
      have eq: "best_of P lo hi best = best_of P (?mid + 1) hi ?mid"
        using True nPm by (simp add: best_of.simps [of P lo hi] Let_def)
      have below: "\<forall>s. A \<le> s \<and> s < ?mid + 1 \<longrightarrow> \<not> P s"
      proof (intro allI impI notI)
        fix s assume s: "A \<le> s \<and> s < ?mid + 1" and "P s"
        with m "1.prems"(3) have "A \<le> s \<and> s \<le> ?mid \<and> ?mid \<le> B \<and> P s"
          by linarith
        with mono have "P ?mid" by blast
        with nPm show False by simp
      qed
      have best': "?mid = (if ?mid + 1 = A then A else ?mid + 1 - 1)"
        using m "1.prems"(2) by simp
      show ?thesis
        unfolding eq
        by (rule "1.IH"(2) [OF True refl nPm mono _ "1.prems"(3) _ below "1.prems"(6) best'])
           (use m "1.prems"(2) in linarith)+
    qed
  qed
qed

lemma fit_resultI:
  assumes "lo \<le> b" and "b \<le> hi"
    and above: "\<forall>s. b < s \<and> s \<le> hi \<longrightarrow> overflowAt el s"
    and at: "\<not> overflowAt el b \<or> (b = lo \<and> (\<forall>s. lo \<le> s \<and> s \<le> hi \<longrightarrow> overflowAt el s))"
  shows "fit_result el lo hi = b"
proof (cases "\<forall>s\<in>{lo..hi}. overflowAt el s")
  case True
  with assms(1,2) have "overflowAt el b" by simp
  with at have "b = lo" by blast
  with True show ?thesis by (simp add: fit_result_def)
next
  case False
  with at have nb: "\<not> overflowAt el b" by auto
  have "Max {s \<in> {lo..hi}. \<not> overflowAt el s} = b"
  proof (rule Max_eqI)
    show "finite {s \<in> {lo..hi}. \<not> overflowAt el s}"
      by (rule finite_subset [of _ "{lo..hi}"]) auto
    show "b \<in> {s \<in> {lo..hi}. \<not> overflowAt el s}" using assms(1,2) nb by simp
    fix s assume "s \<in> {s \<in> {lo..hi}. \<not> overflowAt el s}"
    with above show "s \<le> b" by force
  qed
  then show ?thesis
    unfolding fit_result_def using False by (simp only: if_False)
qed

lemma best_of_fit_result:
  assumes "lo \<le> hi"
    and "\<forall>s t. lo \<le> s \<and> s \<le> t \<and> t \<le> hi \<and> overflowAt el s \<longrightarrow> overflowAt el t"
  shows "best_of (overflowAt el) lo hi lo = fit_result el lo hi"
proof -
  let ?b = "best_of (overflowAt el) lo hi lo"
  have post: "(\<forall>s. ?b < s \<and> s \<le> hi \<longrightarrow> overflowAt el s) \<and> lo \<le> ?b \<and> (?b \<le> hi \<or> ?b = lo) \<and>
         (\<not> overflowAt el ?b \<or> (?b = lo \<and> (\<forall>s. lo \<le> s \<and> s \<le> hi \<longrightarrow> overflowAt el s)))"
    by (rule best_of_correct [where A = lo and B = hi]) (use assms in auto)
  with assms(1) have "?b \<le> hi" by auto
  with post show ?thesis
    by (intro fit_resultI [symmetric]) blast+
qed

lemma tried_length_log:
  assumes "lo \<le> hi"
  shows "int (length (tried P lo hi)) \<le> \<lfloor>log 2 (real_of_int (hi - lo + 1))\<rfloor> + 1"
proof -
  let ?k = "length (tried P lo hi)"
  let ?N = "nat (hi - lo + 1)"
  from assms have k: "0 < ?k" using tried_nonempty [of lo hi P] by simp
  then obtain j where j: "?k = Suc j" by (cases ?k) auto
  from tried_length [OF assms, of P] have "2 ^ j \<le> ?N" by (simp add: j)
  then have "real j \<le> log 2 (real ?N)" by (rule le_log2_of_power)
  moreover have "real ?N = real_of_int (hi - lo + 1)" using assms by simp
  ultimately have "real_of_int (int j) \<le> log 2 (real_of_int (hi - lo + 1))" by simp
  then have "int j \<le> \<lfloor>log 2 (real_of_int (hi - lo + 1))\<rfloor>" by (simp only: le_floor_iff)
  then show ?thesis by (simp add: j)
qed

lemma tried_range: "m \<in> set (tried P lo hi) \<Longrightarrow> lo \<le> m \<and> m \<le> hi"
proof (induction P lo hi rule: tried.induct)
  case (1 P lo hi)
  show ?case
  proof (cases "lo \<le> hi")
    case False
    with "1.prems" show ?thesis by (simp add: tried.simps [of P lo hi])
  next
    case True
    let ?mid = "(lo + hi) div 2"
    from True have mid: "lo \<le> ?mid" "?mid \<le> hi" by linarith+
    show ?thesis
    proof (cases "P ?mid")
      case Pm: True
      with True "1.prems" have "m = ?mid \<or> m \<in> set (tried P lo (?mid - 1))"
        by (simp add: tried.simps [of P lo hi] Let_def)
      with "1.IH"(1) [OF True refl Pm] mid show ?thesis by auto
    next
      case nPm: False
      with True "1.prems" have "m = ?mid \<or> m \<in> set (tried P (?mid + 1) hi)"
        by (simp add: tried.simps [of P lo hi] Let_def)
      with "1.IH"(2) [OF True refl nPm] mid show ?thesis by auto
    qed
  qed
qed

lemma fitText_fits_at_max:
  assumes "\<not> isOverflowing (el\<lparr>fontSize := px (number_or (maxPx os) (Fin 28))\<rparr>)"
  shows "fitText el os =
           Some \<lparr>elem = el\<lparr>fontSize := px (number_or (maxPx os) (Fin 28))\<rparr>,
                 writes = [px (number_or (maxPx os) (Fin 28))], reads = 1, rounds = 0\<rparr>"
  using assms
  by (simp add: fitText_def Let_def measured_def setFontSize_def start_def)

lemma fitText_overflows_at_max:
  assumes "isOverflowing (el\<lparr>fontSize := px (number_or (maxPx os) (Fin 28))\<rparr>)"
  shows "fitText el os =
           (case search (number_or (minPx os) (Fin 12)) (number_or (maxPx os) (Fin 28))
                   (number_or (minPx os) (Fin 12))
                   \<lparr>elem = el\<lparr>fontSize := px (number_or (maxPx os) (Fin 28))\<rparr>,
                    writes = [px (number_or (maxPx os) (Fin 28))], reads = 1, rounds = 0\<rparr> of
              None \<Rightarrow> None
            | Some (best', r2) \<Rightarrow> Some (setFontSize (px best') r2))"
  using assms
  by (simp add: fitText_def Let_def measured_def setFontSize_def start_def)

lemma fitText_bounds_fast:
  assumes "\<not> overflowAt el hi"
  shows "fitText el (bounds lo hi) =
           Some \<lparr>elem = el\<lparr>fontSize := px (Fin hi)\<rparr>, writes = [px (Fin hi)],
                 reads = 1, rounds = 0\<rparr>"
  using assms fitText_fits_at_max [where el = el and os = "bounds lo hi"]
  by (simp add: bounds_def overflowAt_def)

lemma fitText_bounds_search:
  assumes "overflowAt el hi"
  shows "fitText el (bounds lo hi) =
           (case search (Fin lo) (Fin hi) (Fin lo)
                   \<lparr>elem = el\<lparr>fontSize := px (Fin hi)\<rparr>, writes = [px (Fin hi)],
                    reads = 1, rounds = 0\<rparr> of
              None \<Rightarrow> None
            | Some (best', r2) \<Rightarrow> Some (setFontSize (px best') r2))"
  using assms fitText_overflows_at_max [where el = el and os = "bounds lo hi"]
  by (simp add: bounds_def overflowAt_def)

lemma fitText_bounds_slow:
  assumes "overflowAt el hi" and "- (2 ^ 52) \<le> lo" and "hi \<le> 2 ^ 52"
  shows "fitText el (bounds lo hi) =
           Some \<lparr>elem = el\<lparr>fontSize := px (Fin (best_of (overflowAt el) lo hi lo))\<rparr>,
                 writes = px (Fin hi) # map (\<lambda>m. px (Fin m)) (tried (overflowAt el) lo hi)
                            @ [px (Fin (best_of (overflowAt el) lo hi lo))],
                 reads = Suc (length (tried (overflowAt el) lo hi)),
                 rounds = length (tried (overflowAt el) lo hi)\<rparr>"
proof -
  let ?r1 = "\<lparr>elem = el\<lparr>fontSize := px (Fin hi)\<rparr>, writes = [px (Fin hi)],
              reads = 1, rounds = 0\<rparr> :: 'a run"
  have P: "overflowAt (elem ?r1) = overflowAt el"
    by simp
  have "search (Fin lo) (Fin hi) (Fin lo) ?r1 =
          Some (Fin (best_of (overflowAt el) lo hi lo), fold probe (tried (overflowAt el) lo hi) ?r1)"
    by (rule search_Fin [OF P assms(2,3)])
  then show ?thesis
    by (simp add: fitText_bounds_search [OF assms(1)] fold_probe setFontSize_def)
qed

lemma fitText_bounds_inverted:
  assumes "overflowAt el hi" and "hi < lo"
  shows "fitText el (bounds lo hi) =
           Some \<lparr>elem = el\<lparr>fontSize := px (Fin lo)\<rparr>, writes = [px (Fin hi), px (Fin lo)],
                 reads = 1, rounds = 0\<rparr>"
proof -
  from assms(2) have "\<not> js_le (Fin lo) (Fin hi)" by simp
  then show ?thesis
    by (simp add: fitText_bounds_search [OF assms(1)] search_stop setFontSize_def)
qed

lemma fitText_frame:
  assumes "fitText el os = Some r"
  shows "(elem r)\<lparr>fontSize := v\<rparr> = el\<lparr>fontSize := v\<rparr>"
proof (cases "isOverflowing (el\<lparr>fontSize := px (number_or (maxPx os) (Fin 28))\<rparr>)")
  case False
  with assms show ?thesis by (auto simp: fitText_fits_at_max)
next
  case True
  let ?r1 = "\<lparr>elem = el\<lparr>fontSize := px (number_or (maxPx os) (Fin 28))\<rparr>,
              writes = [px (number_or (maxPx os) (Fin 28))], reads = 1, rounds = 0\<rparr> :: 'a run"
  from assms True obtain b r2 where
    s: "search (number_or (minPx os) (Fin 12)) (number_or (maxPx os) (Fin 28))
          (number_or (minPx os) (Fin 12)) ?r1 = Some (b, r2)"
    and r: "r = setFontSize (px b) r2"
    by (auto simp: fitText_overflows_at_max split: option.splits)
  from search_frame [OF s, of v] r show ?thesis
    by (simp add: setFontSize_def)
qed

lemma fitText_ignores_fontSize: "fitText (el\<lparr>fontSize := v\<rparr>) os = fitText el os"
  by (simp add: fitText_def start_def setFontSize_def measured_def Let_def)

lemma fitText_again:
  assumes "fitText el os = Some r"
  shows "fitText (elem r) os = Some r"
proof -
  have "elem r = el\<lparr>fontSize := fontSize (elem r)\<rparr>"
    using fitText_frame [OF assms, of "fontSize (elem r)"] by simp
  then have "fitText (elem r) os = fitText (el\<lparr>fontSize := fontSize (elem r)\<rparr>) os"
    by simp
  with assms show ?thesis by (simp only: fitText_ignores_fontSize)
qed

lemma fitText_resolved:
  "number_or (minPx os) (Fin 12) = Fin lo \<Longrightarrow> number_or (maxPx os) (Fin 28) = Fin hi \<Longrightarrow>
   fitText el os = fitText el (bounds lo hi)"
  by (simp add: fitText_def bounds_def)

lemma is_digit_digit_char: "d < 10 \<Longrightarrow> is_digit (digit_char d)"
  by (simp add: is_digit_def digit_char_def)

lemma digit_val_digit_char: "d < 10 \<Longrightarrow> digit_val (digit_char d) = int d"
  by (simp add: digit_val_def digit_char_def)

lemma digits_all: "digits k \<noteq> [] \<and> (\<forall>c\<in>set (digits k). is_digit c)"
proof (induction k rule: digits.induct)
  case (1 n)
  show ?case
  proof (cases "n < 10")
    case True
    then have "nat n < 10" by simp
    with True show ?thesis
      by (simp add: digits.simps [of n] is_digit_digit_char)
  next
    case False
    have "nat (n mod 10) < 10" by simp
    with False "1.IH" show ?thesis
      by (simp add: digits.simps [of n] is_digit_digit_char)
  qed
qed

lemma int_of_digits_snoc: "int_of_digits (ds @ [c]) = int_of_digits ds * 10 + digit_val c"
  by (simp add: int_of_digits_def)

lemma int_of_digits_digits: "0 \<le> k \<Longrightarrow> int_of_digits (digits k) = k"
proof (induction k rule: digits.induct)
  case (1 n)
  show ?case
  proof (cases "n < 10")
    case True
    with "1.prems" have "digit_val (digit_char (nat n)) = n"
      by (simp add: digit_val_digit_char)
    with True show ?thesis
      by (simp add: digits.simps [of n] int_of_digits_def)
  next
    case False
    have "digit_val (digit_char (nat (n mod 10))) = n mod 10"
      by (simp add: digit_val_digit_char)
    moreover from "1.prems" have "0 \<le> n div 10" by simp
    with False "1.IH" have "int_of_digits (digits (n div 10)) = n div 10" by simp
    ultimately show ?thesis
      using False by (simp add: digits.simps [of n] int_of_digits_snoc)
  qed
qed

lemma parse_digits_px: "takeWhile is_digit (digits k @ ''px'') = digits k"
proof -
  have "\<not> is_digit CHR ''p''" by (simp add: is_digit_def)
  with digits_all [of k] show ?thesis
    by (simp add: takeWhile_append2)
qed

lemma parseInt10_digits:
  assumes "0 \<le> k"
  shows "parseInt10 (digits k @ ''px'') = rnd k"
proof -
  from digits_all [of k] obtain c cs where ds: "digits k = c # cs" and c: "is_digit c"
    by (cases "digits k") auto
  have c': "\<not> is_space c" "c \<noteq> CHR ''-''" "c \<noteq> CHR ''+''"
    using c by (auto simp: is_digit_def is_space_def)
  have t: "dropWhile is_space (digits k @ ''px'') = digits k @ ''px''"
    by (simp add: ds c')
  have h: "hd (digits k @ ''px'') = c" "digits k @ ''px'' \<noteq> []"
    by (simp_all add: ds)
  show ?thesis
    unfolding parseInt10_def Let_def t h
    using digits_all [of k] assms
    by (simp add: c' parse_digits_px int_of_digits_digits)
qed

lemma parseInt10_minus_digits:
  assumes "0 \<le> k"
  shows "parseInt10 (CHR ''-'' # digits k @ ''px'') = rnd (- k)"
proof -
  have sp: "\<not> is_space CHR ''-''" by (simp add: is_space_def)
  have t: "dropWhile is_space (CHR ''-'' # digits k @ ''px'') = CHR ''-'' # digits k @ ''px''"
    by (simp add: sp)
  from digits_all [of k] have ne: "digits k \<noteq> []" by simp
  show ?thesis
    unfolding parseInt10_def Let_def t
    using assms by (simp add: parse_digits_px int_of_digits_digits ne)
qed

lemma parseInt10_px:
  assumes "\<bar>n\<bar> \<le> 2 ^ 53"
  shows "parseInt10 (px (Fin n)) = Fin n"
proof (cases "n < 0")
  case True
  with assms have "px (Fin n) = CHR ''-'' # digits (- n) @ ''px''"
    by (simp add: px_def string_of_double_def)
  with True assms show ?thesis
    by (simp add: parseInt10_minus_digits rnd_exact)
next
  case False
  with assms have "px (Fin n) = digits n @ ''px''"
    by (simp add: px_def string_of_double_def)
  with False assms show ?thesis
    by (simp add: parseInt10_digits rnd_exact)
qed

lemma string_of_double_hd: "string_of_double x \<noteq> [] \<and> is_digit (hd (string_of_double x))"
proof -
  have d: "digits k \<noteq> [] \<and> is_digit (hd (digits k))" for k
    using digits_all [of k] by (cases "digits k") auto
  have e: "exponent_form ds \<noteq> [] \<and> hd (exponent_form ds) = hd ds" for ds
    by (simp add: exponent_form_def Let_def)
  show ?thesis
    by (simp add: string_of_double_def Let_def d e)
qed

lemma px_Fin_not_Infinity: "px (Fin n) \<noteq> ''Infinitypx''"
proof
  assume eq: "px (Fin n) = ''Infinitypx''"
  have I: "\<not> is_digit CHR ''I''" by (simp add: is_digit_def)
  show False
  proof (cases "n < 0")
    case True
    with eq show False by (simp add: px_def)
  next
    case False
    from string_of_double_hd [of n] obtain c cs where "string_of_double n = c # cs" "is_digit c"
      by (cases "string_of_double n") auto
    with False eq I show False by (simp add: px_def)
  qed
qed

lemma is_int_px_safe: "\<bar>n\<bar> \<le> 2 ^ 53 \<Longrightarrow> is_int_px (px (Fin n))"
  by (simp add: is_int_px_def parseInt10_px)

lemma overflowAt_three_lines:
  assumes "\<bar>s\<bar> \<le> 2 ^ 53"
  shows "overflowAt three_lines s = (14 < s)"
proof -
  have "overflowAt three_lines s = (1 < 3 * s - 42)"
    by (simp add: overflowAt_layout three_lines_def blank_def parseInt10_px [OF assms])
  also have "\<dots> = (14 < s)" by linarith
  finally show ?thesis .
qed

lemma overflowAt_cramped: "overflowAt cramped s"
  by (simp add: overflowAt_layout cramped_def blank_def spills_def)

lemma overflowAt_roomy: "\<not> overflowAt roomy s"
  by (simp add: overflowAt_layout roomy_def blank_def fits_def)

lemma search_stuck:
  fixes r :: "'r run"
  assumes le: "js_le lo hi"
    and over: "isOverflowing (el\<lparr>fontSize := px (js_floor_half (js_add lo hi))\<rparr>) \<Longrightarrow>
                 js_sub (js_floor_half (js_add lo hi)) (Fin 1) = hi"
    and under: "\<not> isOverflowing (el\<lparr>fontSize := px (js_floor_half (js_add lo hi))\<rparr>) \<Longrightarrow>
                 js_add (js_floor_half (js_add lo hi)) (Fin 1) = lo"
    and lay: "layout (elem r) = layout el"
  shows "search lo hi best r = None"
proof -
  let ?mid = "js_floor_half (js_add lo hi)"
  have ov: "isOverflowing ((elem d)\<lparr>fontSize := v\<rparr>) = isOverflowing (el\<lparr>fontSize := v\<rparr>)"
    if "layout (elem d) = layout el" for d :: "'r run" and v
    using that by (simp add: isOverflowing_def)
  have "search a b c d = Some y \<Longrightarrow> \<not> (a = lo \<and> b = hi \<and> layout (elem d) = layout el)"
    for a b c y and d :: "'r run"
  proof (rule search.raw_induct
      [where P = "\<lambda>a b c d y. \<not> (a = lo \<and> b = hi \<and> layout (elem d) = layout el)"])
    fix f :: "jsnum \<Rightarrow> jsnum \<Rightarrow> jsnum \<Rightarrow> 'r run \<Rightarrow> (jsnum \<times> 'r run) option"
      and a b c d y
    assume IH: "\<And>a b c d y. f a b c d = Some y \<Longrightarrow>
                  \<not> (a = lo \<and> b = hi \<and> layout (elem d) = layout el)"
      and body: "(if js_le a b
        then let mid = js_floor_half (js_add a b);
                 r1 = setFontSize (px mid) (d\<lparr>rounds := Suc (rounds d)\<rparr>);
                 ov = fst (measured r1); r2 = snd (measured r1)
             in if ov then f a (js_sub mid (Fin 1)) c r2
                else f (js_add mid (Fin 1)) b mid r2
        else Some (c, d)) = Some y"
    show "\<not> (a = lo \<and> b = hi \<and> layout (elem d) = layout el)"
    proof
      assume st: "a = lo \<and> b = hi \<and> layout (elem d) = layout el"
      let ?r2 = "snd (measured (setFontSize (px ?mid) (d\<lparr>rounds := Suc (rounds d)\<rparr>)))"
      have l2: "layout (elem ?r2) = layout el"
        using st by (simp add: measured_def setFontSize_def)
      have m: "fst (measured (setFontSize (px ?mid) (d\<lparr>rounds := Suc (rounds d)\<rparr>)))
                 = isOverflowing (el\<lparr>fontSize := px ?mid\<rparr>)"
        using st by (simp add: measured_def setFontSize_def isOverflowing_def)
      show False
      proof (cases "isOverflowing (el\<lparr>fontSize := px ?mid\<rparr>)")
        case True
        with body st le m have "f lo (js_sub ?mid (Fin 1)) c ?r2 = Some y"
          by (simp add: Let_def)
        with over [OF True] have "f lo hi c ?r2 = Some y" by simp
        from IH [OF this] l2 show False by simp
      next
        case False
        with body st le m have "f (js_add ?mid (Fin 1)) hi ?mid ?r2 = Some y"
          by (simp add: Let_def)
        with under [OF False] have "f lo hi ?mid ?r2 = Some y" by simp
        from IH [OF this] l2 show False by simp
      qed
    qed
  qed
  note never = this
  show ?thesis
  proof (cases "search lo hi best r")
    case None
    then show ?thesis .
  next
    case (Some y)
    from never [OF Some] lay show ?thesis by simp
  qed
qed

lemma p52: "(2::int) ^ 52 = 4503599627370496" by simp
lemma p53: "(2::int) ^ 53 = 9007199254740992" by simp
lemma p54: "(2::int) ^ 54 = 18014398509481984" by simp

lemma brink_facts:
  "\<not> overflowAt brink 9007199254740992"
  "overflowAt brink 9007199254740994"
  "js_floor_half (js_add (Fin 9007199254740992) (Fin 9007199254740994)) = Fin 9007199254740992"
  "js_add (Fin 9007199254740992) (Fin 1) = Fin 9007199254740992"
  by code_simp+

lemma fitText_brink: "fitText brink (bounds 9007199254740992 9007199254740994) = None"
proof -
  let ?r1 = "\<lparr>elem = brink\<lparr>fontSize := px (Fin 9007199254740994)\<rparr>,
              writes = [px (Fin 9007199254740994)], reads = 1, rounds = 0\<rparr>"
  have "search (Fin 9007199254740992) (Fin 9007199254740994) (Fin 9007199254740992) ?r1 = None"
  proof (rule search_stuck [where el = brink])
    show "js_le (Fin 9007199254740992) (Fin 9007199254740994)" by simp
    show "layout (elem ?r1) = layout brink" by simp
    show "js_add (js_floor_half (js_add (Fin 9007199254740992) (Fin 9007199254740994))) (Fin 1)
            = Fin 9007199254740992"
      by (simp only: brink_facts)
    assume "isOverflowing (brink\<lparr>fontSize :=
              px (js_floor_half (js_add (Fin 9007199254740992) (Fin 9007199254740994)))\<rparr>)"
    with brink_facts(1) show "js_sub (js_floor_half (js_add (Fin 9007199254740992)
              (Fin 9007199254740994))) (Fin 1) = Fin 9007199254740994"
      by (simp only: brink_facts(3) overflowAt_def)
  qed
  then show ?thesis
    by (simp add: fitText_bounds_search [OF brink_facts(2)])
qed

lemma cramped_facts:
  "js_floor_half (js_add (Fin 18014398509481984) (Fin 18014398509481984)) = Fin 18014398509481984"
  "js_sub (Fin 18014398509481984) (Fin 1) = Fin 18014398509481984"
  by code_simp+

lemma fitText_cramped_big: "fitText cramped (bounds 18014398509481984 18014398509481984) = None"
proof -
  let ?r1 = "\<lparr>elem = cramped\<lparr>fontSize := px (Fin 18014398509481984)\<rparr>,
              writes = [px (Fin 18014398509481984)], reads = 1, rounds = 0\<rparr>"
  have ov: "isOverflowing (cramped\<lparr>fontSize := v\<rparr>)" for v
    by (simp add: isOverflowing_def cramped_def blank_def spills_def)
  have "search (Fin 18014398509481984) (Fin 18014398509481984) (Fin 18014398509481984) ?r1 = None"
  proof (rule search_stuck [where el = cramped])
    show "js_le (Fin 18014398509481984) (Fin 18014398509481984)" by simp
    show "layout (elem ?r1) = layout cramped" by simp
    show "js_sub (js_floor_half (js_add (Fin 18014398509481984) (Fin 18014398509481984))) (Fin 1)
            = Fin 18014398509481984"
      by (simp only: cramped_facts)
    assume "\<not> isOverflowing (cramped\<lparr>fontSize :=
              px (js_floor_half (js_add (Fin 18014398509481984) (Fin 18014398509481984)))\<rparr>)"
    with ov show "js_add (js_floor_half (js_add (Fin 18014398509481984)
              (Fin 18014398509481984))) (Fin 1) = Fin 18014398509481984"
      by simp
  qed
  then show ?thesis
    by (simp add: fitText_bounds_search [OF overflowAt_cramped])
qed

lemma rnd_overflow: "rnd (2 ^ 1023 + 2 ^ 1023) = PosInf"
  by code_simp

lemma fitText_only_inf:
  "fitText only_inf (bounds (2 ^ 1023) (2 ^ 1023)) =
     Some \<lparr>elem = only_inf\<lparr>fontSize := ''Infinitypx''\<rparr>,
           writes = [px (Fin (2 ^ 1023)), ''Infinitypx'', ''Infinitypx''],
           reads = 2, rounds = 1\<rparr>"
proof -
  let ?B = "(2::int) ^ 1023"
  let ?r1 = "\<lparr>elem = only_inf\<lparr>fontSize := px (Fin ?B)\<rparr>, writes = [px (Fin ?B)],
              reads = 1, rounds = 0\<rparr>"
  let ?r2 = "\<lparr>elem = only_inf\<lparr>fontSize := ''Infinitypx''\<rparr>,
              writes = [px (Fin ?B), ''Infinitypx''], reads = 2, rounds = 1\<rparr>"
  have ov: "overflowAt only_inf ?B"
    by (simp only: overflowAt_layout)
       (simp add: only_inf_def blank_def spills_def px_Fin_not_Infinity)
  have inf: "px PosInf = ''Infinitypx''"
    by (simp add: px_def)
  have fit: "\<not> isOverflowing (only_inf\<lparr>fontSize := ''Infinitypx''\<rparr>)"
    by (simp add: isOverflowing_def only_inf_def blank_def fits_def)
  have mid: "js_floor_half (js_add (Fin ?B) (Fin ?B)) = PosInf"
    by (simp only: js_add.simps rnd_overflow js_floor_half.simps)
  have le: "js_le (Fin ?B) (Fin ?B)"
    by (simp only: js_le.simps order_refl)
  have r2: "snd (measured (setFontSize ''Infinitypx'' (?r1\<lparr>rounds := Suc (rounds ?r1)\<rparr>))) = ?r2"
    by (simp add: measured_def setFontSize_def)
  have m2: "\<not> fst (measured (setFontSize ''Infinitypx'' (?r1\<lparr>rounds := Suc (rounds ?r1)\<rparr>)))"
    using fit by (simp add: measured_def setFontSize_def)
  have "search (Fin ?B) (Fin ?B) (Fin ?B) ?r1 = search (js_add PosInf (Fin 1)) (Fin ?B) PosInf ?r2"
    by (subst search.simps) (simp only: le mid inf Let_def m2 r2 if_True if_False)
  also have "\<dots> = Some (PosInf, ?r2)"
    by (rule search_stop) simp
  finally have "search (Fin ?B) (Fin ?B) (Fin ?B) ?r1 = Some (PosInf, ?r2)" .
  then show ?thesis
    by (simp only: fitText_bounds_search [OF ov] option.case prod.case inf)
       (simp add: setFontSize_def)
qed

lemma not_int_px_Infinity: "\<not> is_int_px ''Infinitypx''"
  by code_simp

lemma three_lines_run:
  "fitText three_lines (bounds 10 20) =
     Some \<lparr>elem = three_lines\<lparr>fontSize := ''14px''\<rparr>,
           writes = [''20px'', ''15px'', ''12px'', ''13px'', ''14px'', ''14px''],
           reads = 5, rounds = 4\<rparr>"
proof -
  have t: "tried (overflowAt three_lines) 10 20 = [15, 12, 13, 14]"
    and b: "best_of (overflowAt three_lines) 10 20 10 = 14"
    and o: "overflowAt three_lines 20"
    by code_simp+
  have s: "px (Fin 15) = ''15px''" "px (Fin 12) = ''12px''" "px (Fin 13) = ''13px''"
    "px (Fin 20) = ''20px''" "px (Fin 14) = ''14px''"
    by code_simp+
  show ?thesis
    by (simp add: fitText_bounds_slow [OF o] t b s)
qed

lemma fitText_last_write:
  assumes "fitText el os = Some r"
  shows "writes r \<noteq> [] \<and> fontSize (elem r) = last (writes r)"
proof (cases "isOverflowing (el\<lparr>fontSize := px (number_or (maxPx os) (Fin 28))\<rparr>)")
  case False
  with assms show ?thesis by (auto simp: fitText_fits_at_max)
next
  case True
  with assms show ?thesis
    by (auto simp: fitText_overflows_at_max setFontSize_def split: option.splits)
qed

lemma fitText_safe_writes:
  assumes "\<bar>lo\<bar> \<le> 2 ^ 52" and "\<bar>hi\<bar> \<le> 2 ^ 52"
  shows "\<exists>r. fitText el (bounds lo hi) = Some r \<and> (\<forall>w\<in>set (writes r). is_int_px w)"
proof (cases "overflowAt el hi")
  case False
  from assms(2) have "\<bar>hi\<bar> \<le> 2 ^ 53" by simp
  with False show ?thesis
    by (simp add: fitText_bounds_fast is_int_px_safe)
next
  case True
  let ?P = "overflowAt el"
  from assms have b: "- (2 ^ 52) \<le> lo" "hi \<le> 2 ^ 52" by simp_all
  have hi: "is_int_px (px (Fin hi))"
    using assms(2) by (intro is_int_px_safe) simp
  have mids: "is_int_px (px (Fin m))" if "m \<in> set (tried ?P lo hi)" for m
  proof -
    from tried_range [OF that] assms have "\<bar>m\<bar> \<le> 2 ^ 53" by (simp add: abs_le_iff)
    then show ?thesis by (rule is_int_px_safe)
  qed
  have best: "is_int_px (px (Fin (best_of ?P lo hi lo)))"
  proof -
    from best_of_range [of ?P lo hi lo] assms have "\<bar>best_of ?P lo hi lo\<bar> \<le> 2 ^ 53"
      by (auto simp: abs_le_iff)
    then show ?thesis by (rule is_int_px_safe)
  qed
  show ?thesis
    using hi mids best by (auto simp: fitText_bounds_slow [OF True b])
qed

lemma p21: "(10::int) ^ 21 = 1000000000000000000000" by simp

lemma cramped_facts21:
  "js_floor_half (js_add (Fin 1000000000000000000000) (Fin 1000000000000000000000))
     = Fin 1000000000000000000000"
  "js_sub (Fin 1000000000000000000000) (Fin 1) = Fin 1000000000000000000000"
  by code_simp+

lemma fitText_cramped_1e21:
  "fitText cramped (bounds 1000000000000000000000 1000000000000000000000) = None"
proof -
  let ?B = "Fin 1000000000000000000000"
  let ?r1 = "\<lparr>elem = cramped\<lparr>fontSize := px ?B\<rparr>, writes = [px ?B], reads = 1, rounds = 0\<rparr>"
  have ov: "isOverflowing (cramped\<lparr>fontSize := v\<rparr>)" for v
    by (simp add: isOverflowing_def cramped_def blank_def spills_def)
  have "search ?B ?B ?B ?r1 = None"
  proof (rule search_stuck [where el = cramped])
    show "js_le ?B ?B" by simp
    show "layout (elem ?r1) = layout cramped" by simp
    show "js_sub (js_floor_half (js_add ?B ?B)) (Fin 1) = ?B"
      by (simp only: cramped_facts21)
    assume "\<not> isOverflowing (cramped\<lparr>fontSize := px (js_floor_half (js_add ?B ?B))\<rparr>)"
    with ov show "js_add (js_floor_half (js_add ?B ?B)) (Fin 1) = ?B"
      by simp
  qed
  then show ?thesis
    by (simp add: fitText_bounds_search [OF overflowAt_cramped])
qed

section \<open>The properties of the specification\<close>

text \<open>
  C1 (fit result, monotonic correctness), as stated for every pair of integer bounds: with
  \<open>minPx = 2^53\<close>, \<open>maxPx = 2^53 + 2\<close> and content that overflows exactly above \<open>2^53\<close>
  (monotonic, with its threshold in the range) the call never returns. The element overflows
  at the upper bound, so the loop is entered; \<open>lo + hi\<close> rounds to \<open>2^54\<close>, the midpoint is
  \<open>2^53\<close>, which fits, and \<open>mid + 1\<close> rounds back to \<open>2^53\<close>: \<open>lo\<close> never moves.
\<close>

theorem fitText_largest_fit_counterexample:
  "fitText brink (bounds (2 ^ 53) (2 ^ 53 + 2)) = None \<and>
   \<not> overflowAt brink (2 ^ 53) \<and> overflowAt brink (2 ^ 53 + 2)"
  using fitText_brink brink_facts(1,2) by (simp add: p53)

text \<open>
  C1, amended. For integer bounds with \<open>-2^52 \<le> lo \<le> hi \<le> 2^52\<close> and an element whose
  overflow is monotonic in the font size over \<open>[lo, hi]\<close> (once it overflows at a size, it
  overflows at every larger size of the range), \<^verbatim>\<open>fitText\<close> returns and leaves the font size
  at the largest size of \<open>[lo, hi]\<close> at which the element does not overflow, or at \<open>lo\<close> if
  it overflows at every size of the range. In particular, if the element overflows exactly at
  the sizes above a threshold \<open>th\<close> in \<open>[lo, hi]\<close>, the font size left is \<open>th\<close>.
\<close>

theorem fitText_largest_fit:
  assumes "- (2 ^ 52) \<le> lo" and "lo \<le> hi" and "hi \<le> 2 ^ 52"
    and "\<forall>s t. lo \<le> s \<and> s \<le> t \<and> t \<le> hi \<and> overflowAt el s \<longrightarrow> overflowAt el t"
  shows "\<exists>r. fitText el (bounds lo hi) = Some r \<and>
           fontSize (elem r) = px (Fin (fit_result el lo hi)) \<and>
           (\<forall>th. lo \<le> th \<and> th \<le> hi \<and>
                 (\<forall>s. lo \<le> s \<and> s \<le> hi \<longrightarrow> overflowAt el s = (th < s))
                 \<longrightarrow> fontSize (elem r) = px (Fin th))"
proof -
  have main: "\<exists>r. fitText el (bounds lo hi) = Some r \<and>
                fontSize (elem r) = px (Fin (fit_result el lo hi))"
  proof (cases "overflowAt el hi")
    case True
    then show ?thesis
      by (simp add: fitText_bounds_slow [OF True assms(1,3)] best_of_fit_result [OF assms(2,4)])
  next
    case False
    have "fit_result el lo hi = hi"
      by (rule fit_resultI) (use assms(2) False in auto)
    with False show ?thesis
      by (simp add: fitText_bounds_fast)
  qed
  have "fit_result el lo hi = th"
    if th: "lo \<le> th" "th \<le> hi" "\<forall>s. lo \<le> s \<and> s \<le> hi \<longrightarrow> overflowAt el s = (th < s)" for th
    by (rule fit_resultI) (use th in auto)
  with main show ?thesis by auto
qed

theorem fitText_largest_fit_witness:
  "- (2 ^ 52) \<le> (10::int) \<and> (10::int) \<le> 20 \<and> (20::int) \<le> 2 ^ 52 \<and>
   fit_result three_lines 10 20 = 14 \<and>
   (\<exists>r. fitText three_lines (bounds 10 20) = Some r \<and> fontSize (elem r) = ''14px'')"
proof -
  have safe: "\<bar>s\<bar> \<le> 2 ^ 53" if "10 \<le> s" "s \<le> 20" for s :: int
    using that by simp
  have mono: "\<forall>s t. 10 \<le> s \<and> s \<le> t \<and> t \<le> 20 \<and> overflowAt three_lines s \<longrightarrow> overflowAt three_lines t"
    by (auto simp: overflowAt_three_lines safe)
  have fr: "fit_result three_lines 10 20 = 14"
    by (rule fit_resultI) (auto simp: overflowAt_three_lines safe)
  have "px (Fin 14) = ''14px''" by code_simp
  with fitText_largest_fit [of 10 20 three_lines] mono fr show ?thesis
    by auto
qed

text \<open>
  C2 (fast path). Whatever the options are, if the element does not overflow once its font
  size is set to the upper bound, \<^verbatim>\<open>fitText\<close> returns with the font size at that bound, the
  loop body is never executed and exactly one measurement is made.
\<close>

theorem fitText_fast_path:
  assumes "\<not> isOverflowing (el\<lparr>fontSize := px (number_or (maxPx os) (Fin 28))\<rparr>)"
  shows "\<exists>r. fitText el os = Some r \<and>
           fontSize (elem r) = px (number_or (maxPx os) (Fin 28)) \<and>
           rounds r = 0 \<and> reads r = 1"
  using assms by (simp add: fitText_fits_at_max)

theorem fitText_fast_path_witness:
  "\<exists>r. fitText roomy (bounds 12 28) = Some r \<and> fontSize (elem r) = ''28px'' \<and>
       rounds r = 0 \<and> reads r = 1"
proof -
  have "\<not> isOverflowing (roomy\<lparr>fontSize := px (number_or (maxPx (bounds 12 28)) (Fin 28))\<rparr>)"
    by (simp add: isOverflowing_def roomy_def blank_def fits_def)
  moreover have "px (number_or (maxPx (bounds 12 28)) (Fin 28)) = ''28px''"
    by code_simp
  ultimately show ?thesis
    using fitText_fast_path [where el = roomy and os = "bounds 12 28"] by simp
qed

text \<open>
  C3 (logarithmic cost), as stated: at most \<open>\<lceil>log\<^sub>2 (hi - lo + 1)\<rceil> + 1\<close> measurements,
  and a loop that always ends. With \<open>lo = hi = 12\<close> that bound is 1, but an element that
  overflows at \<open>12px\<close> is measured twice: once by the fast-path check and once in the single
  round of the loop, which tries \<open>12\<close> again. With \<open>lo = hi = 10^21\<close> on such an element
  \<open>mid - 1\<close> rounds back to \<open>10^21\<close> and the loop does not end.
\<close>

theorem fitText_cost_counterexample:
  "map_option (\<lambda>r. int (reads r)) (fitText cramped (bounds 12 12)) = Some 2 \<and>
   \<lceil>log 2 (real_of_int (12 - 12 + 1))\<rceil> + 1 = 1 \<and>
   fitText cramped (bounds (10 ^ 21) (10 ^ 21)) = None"
proof -
  have "map_option (\<lambda>r. int (reads r)) (fitText cramped (bounds 12 12)) = Some 2" by code_simp
  with fitText_cramped_1e21 show ?thesis by (simp add: p21)
qed

text \<open>
  C3, amended. For integer bounds with \<open>-2^52 \<le> lo \<le> hi \<le> 2^52\<close> the call returns, and
  the number of measurements is at most \<open>\<lfloor>log\<^sub>2 (hi - lo + 1)\<rfloor> + 2\<close>: one for the
  fast-path check and one per round of the loop, of which there are at most
  \<open>\<lfloor>log\<^sub>2 (hi - lo + 1)\<rfloor> + 1\<close>.
\<close>

theorem fitText_cost:
  assumes "- (2 ^ 52) \<le> lo" and "lo \<le> hi" and "hi \<le> 2 ^ 52"
  shows "\<exists>r. fitText el (bounds lo hi) = Some r \<and>
           int (reads r) \<le> \<lfloor>log 2 (real_of_int (hi - lo + 1))\<rfloor> + 2 \<and>
           reads r = Suc (rounds r)"
proof (cases "overflowAt el hi")
  case False
  from assms(2) have "0 \<le> log 2 (real_of_int (hi - lo + 1))" by simp
  then have "0 \<le> \<lfloor>log 2 (real_of_int (hi - lo + 1))\<rfloor>" by simp
  with False show ?thesis by (simp add: fitText_bounds_fast)
next
  case True
  with tried_length_log [OF assms(2), of "overflowAt el"] show ?thesis
    by (simp add: fitText_bounds_slow [OF True assms(1,3)])
qed

theorem fitText_cost_witness:
  "- (2 ^ 52) \<le> (10::int) \<and> (10::int) \<le> 20 \<and> (20::int) \<le> 2 ^ 52 \<and>
   (\<exists>r. fitText three_lines (bounds 10 20) = Some r \<and> reads r = 5 \<and>
        int (reads r) \<le> \<lfloor>log 2 (real_of_int (20 - 10 + 1))\<rfloor> + 2)"
  using fitText_cost [of 10 20 three_lines] by (simp add: three_lines_run)

text \<open>
  C4 (bounds respected), as stated for every pair of integer bounds: with
  \<open>minPx = maxPx = 2^54\<close> on an element that overflows at every size there is no final font
  size, because the call never returns. The midpoint is \<open>2^54\<close>, the element overflows, and
  \<open>mid - 1\<close> rounds back to \<open>2^54\<close>: \<open>hi\<close> never moves.
\<close>

theorem fitText_within_bounds_counterexample:
  "fitText cramped (bounds (2 ^ 54) (2 ^ 54)) = None \<and> overflowAt cramped (2 ^ 54)"
  using fitText_cramped_big overflowAt_cramped by (simp add: p54)

text \<open>
  C4, amended. For integer bounds with \<open>-2^52 \<le> lo \<le> hi \<le> 2^52\<close> \<^verbatim>\<open>fitText\<close> returns
  and the font size it leaves on the element is a size of \<open>[lo, hi]\<close>. This holds for every
  overflow behaviour, monotonic or not.
\<close>

theorem fitText_within_bounds:
  assumes "- (2 ^ 52) \<le> lo" and "lo \<le> hi" and "hi \<le> 2 ^ 52"
  shows "\<exists>r s. fitText el (bounds lo hi) = Some r \<and> lo \<le> s \<and> s \<le> hi \<and>
             fontSize (elem r) = px (Fin s)"
proof (cases "overflowAt el hi")
  case False
  with assms(2) show ?thesis
    by (auto simp: fitText_bounds_fast)
next
  case True
  let ?b = "best_of (overflowAt el) lo hi lo"
  from best_of_range [of "overflowAt el" lo hi lo] assms(2)
  have "lo \<le> ?b \<and> ?b \<le> hi" by linarith
  then show ?thesis
    by (auto simp: fitText_bounds_slow [OF True assms(1,3)])
qed

theorem fitText_within_bounds_witness:
  "\<exists>r s. fitText three_lines (bounds 10 20) = Some r \<and> 10 \<le> s \<and> s \<le> 20 \<and>
         fontSize (elem r) = px (Fin s)"
  using fitText_within_bounds [of 10 20 three_lines] by simp

text \<open>
  C5 (overflow predicate). \<^verbatim>\<open>isOverflowing\<close> answers true exactly when the content
  height exceeds the visible height by more than one pixel, or the content width exceeds the
  visible width by more than one pixel; a call returns that answer, leaves the element as it
  is and assigns nothing.
\<close>

theorem isOverflowing_spec:
  "isOverflowing el =
     (scrollHeight (layout el (fontSize el)) - clientHeight (layout el (fontSize el)) > 1 \<or>
      scrollWidth (layout el (fontSize el)) - clientWidth (layout el (fontSize el)) > 1) \<and>
   fst (measured r) = isOverflowing (elem r) \<and>
   elem (snd (measured r)) = elem r \<and> writes (snd (measured r)) = writes r"
  by (simp add: isOverflowing_def measured_def Let_def)

text \<open>
  C6 (idempotence), as stated: a second run on the fitted element would need only the
  fast-path check. The element with three lines of text, fitted to \<open>14px\<close> within
  \<open>[10, 20]\<close>, has the same layout afterwards, and the second run makes five measurements
  in four rounds: it starts again from \<open>20px\<close>.
\<close>

theorem fitText_refit_counterexample:
  "map_option reads (refit three_lines (bounds 10 20)) = Some 5 \<and>
   map_option rounds (refit three_lines (bounds 10 20)) = Some 4 \<and>
   map_option (\<lambda>r. layout (elem r)) (fitText three_lines (bounds 10 20))
     = Some (layout three_lines)"
proof -
  have "refit three_lines (bounds 10 20) = fitText three_lines (bounds 10 20)"
    by (simp add: refit_def three_lines_run fitText_ignores_fontSize)
  then show ?thesis by (simp add: three_lines_run)
qed

text \<open>
  C6, amended. Running \<^verbatim>\<open>fitText\<close> again on the element it has fitted, with the same
  options and unchanged layout, gives the same run: the same final font size, the same
  assignments, the same number of measurements and rounds as the first run. It is the
  fast-path check alone when the element does not overflow at the upper bound; otherwise the
  search is repeated.
\<close>

theorem fitText_refit:
  "refit el os = fitText el os \<and>
   (\<not> isOverflowing (el\<lparr>fontSize := px (number_or (maxPx os) (Fin 28))\<rparr>) \<longrightarrow>
      map_option reads (refit el os) = Some 1 \<and> map_option rounds (refit el os) = Some 0)"
proof -
  have eq: "refit el os = fitText el os"
    by (cases "fitText el os") (simp_all add: refit_def fitText_again)
  show ?thesis
    unfolding eq by (simp add: fitText_fits_at_max)
qed

theorem fitText_refit_witness:
  "refit roomy (bounds 12 28) = fitText roomy (bounds 12 28) \<and>
   map_option reads (refit roomy (bounds 12 28)) = Some 1 \<and>
   map_option rounds (refit roomy (bounds 12 28)) = Some 0"
proof -
  have "\<not> isOverflowing (roomy\<lparr>fontSize := px (number_or (maxPx (bounds 12 28)) (Fin 28))\<rparr>)"
    by (simp add: isOverflowing_def roomy_def blank_def fits_def)
  with fitText_refit [where el = roomy and os = "bounds 12 28"] show ?thesis by blast
qed

text \<open>
  C7 (inverted bounds), as stated: with \<open>minPx = 20 > maxPx = 10\<close> the final font size would
  be \<open>20px\<close>. On an element that fits at \<open>10px\<close> the fast path returns first and the font
  size stays at \<open>10px\<close>.
\<close>

theorem fitText_inverted_bounds_counterexample:
  "(10::int) < 20 \<and>
   map_option (\<lambda>r. fontSize (elem r)) (fitText roomy (bounds 20 10)) = Some ''10px'' \<and>
   px (Fin 20) = ''20px''"
  by code_simp

text \<open>
  C7, amended. For integer bounds with \<open>lo > hi\<close> the call returns, the loop body is never
  executed and one measurement is made; the final font size is \<open>lo\<close> (\<open>best\<close>, unchanged) if
  the element overflows at \<open>hi\<close>, and \<open>hi\<close> if it does not (the fast path). There is no
  failure.
\<close>

theorem fitText_inverted_bounds:
  assumes "hi < lo"
  shows "\<exists>r. fitText el (bounds lo hi) = Some r \<and> rounds r = 0 \<and> reads r = 1 \<and>
           fontSize (elem r) = px (Fin (if overflowAt el hi then lo else hi))"
proof (cases "overflowAt el hi")
  case False
  then show ?thesis by (simp add: fitText_bounds_fast)
next
  case True
  then show ?thesis
    by (simp add: fitText_bounds_inverted [OF True assms])
qed

theorem fitText_inverted_bounds_witness:
  "(10::int) < 20 \<and>
   (\<exists>r. fitText cramped (bounds 20 10) = Some r \<and> rounds r = 0 \<and> reads r = 1 \<and>
        fontSize (elem r) = px (Fin 20))"
  using fitText_inverted_bounds [of 10 20 cramped] by (simp add: overflowAt_cramped)

text \<open>
  C8 (non-numeric attributes), at a target with \<^verbatim>\<open>data-fit-min="abc"\<close> that fits at no
  size: \<^verbatim>\<open>"abc" || "12"\<close> is \<^verbatim>\<open>"abc"\<close>, \<^verbatim>\<open>parseInt\<close> gives \<^verbatim>\<open>NaN\<close>, and
  \<^verbatim>\<open>typeof NaN\<close> is \<^verbatim>\<open>"number"\<close>, so the lower bound used is \<^verbatim>\<open>NaN\<close> and not the
  default 12. The loop does not run and the last assignment is \<open>NaNpx\<close>; with the bounds
  12 and 28 the run would end at \<open>12px\<close>.
\<close>

theorem enableFitText_non_numeric:
  "attributes mistyped ''data-fit-min'' = Some ''abc'' \<and>
   fit_opts mistyped = \<lparr>minPx = Number NaN, maxPx = Number (Fin 28)\<rparr> \<and>
   map_option writes (enableFitText_first mistyped) = Some [''28px'', ''NaNpx''] \<and>
   map_option (\<lambda>r. fontSize (elem r)) (enableFitText_first mistyped) = Some ''NaNpx'' \<and>
   map_option (\<lambda>r. fontSize (elem r)) (fitText mistyped (bounds 12 28)) = Some ''12px''"
  by code_simp

text \<open>
  C9 (style mutation), as stated: every value assigned would be an integer number of
  pixels. With the integer bounds \<open>minPx = maxPx = 2^1023\<close> the sum \<open>lo + hi\<close> is beyond the
  largest double, the midpoint is \<^verbatim>\<open>Infinity\<close> and \<open>Infinitypx\<close> is assigned; on an element
  that fits there the loop ends at once and \<open>Infinitypx\<close> is the value left.
\<close>

theorem fitText_writes_counterexample:
  "map_option (\<lambda>r. last (writes r)) (fitText only_inf (bounds (2 ^ 1023) (2 ^ 1023)))
     = Some ''Infinitypx'' \<and> \<not> is_int_px ''Infinitypx''"
  by (simp only: fitText_only_inf not_int_px_Infinity) simp

text \<open>
  C9, amended. Whatever the options are, a call of \<^verbatim>\<open>fitText\<close> that returns has changed
  nothing of the element but its \<^verbatim>\<open>style.fontSize\<close>: attributes, layout and every other
  property are as before, and the font size left is the last value assigned. When both
  bounds, after defaulting, are integers of magnitude at most \<open>2^52\<close>, the call returns and
  every value assigned is an integer number of pixels.
\<close>

theorem fitText_frame_effect:
  "(\<forall>r. fitText el os = Some r \<longrightarrow>
        elem r = el\<lparr>fontSize := fontSize (elem r)\<rparr> \<and>
        writes r \<noteq> [] \<and> fontSize (elem r) = last (writes r)) \<and>
   (\<forall>lo hi. number_or (minPx os) (Fin 12) = Fin lo \<and> number_or (maxPx os) (Fin 28) = Fin hi \<and>
           \<bar>lo\<bar> \<le> 2 ^ 52 \<and> \<bar>hi\<bar> \<le> 2 ^ 52
      \<longrightarrow> (\<exists>r. fitText el os = Some r \<and> (\<forall>w\<in>set (writes r). is_int_px w)))"
proof -
  have frame: "elem r = el\<lparr>fontSize := fontSize (elem r)\<rparr>" if "fitText el os = Some r" for r
    using fitText_frame [OF that, of "fontSize (elem r)"] by simp
  have ints: "\<exists>r. fitText el os = Some r \<and> (\<forall>w\<in>set (writes r). is_int_px w)"
    if "number_or (minPx os) (Fin 12) = Fin lo" "number_or (maxPx os) (Fin 28) = Fin hi"
      "\<bar>lo\<bar> \<le> 2 ^ 52" "\<bar>hi\<bar> \<le> 2 ^ 52" for lo hi
    unfolding fitText_resolved [OF that(1,2)] by (rule fitText_safe_writes [OF that(3,4)])
  from frame fitText_last_write ints show ?thesis by blast
qed

theorem fitText_frame_effect_witness:
  "\<exists>r. fitText three_lines (bounds 10 20) = Some r \<and>
       elem r = three_lines\<lparr>fontSize := ''14px''\<rparr> \<and>
       writes r = [''20px'', ''15px'', ''12px'', ''13px'', ''14px'', ''14px''] \<and>
       list_all is_int_px (writes r)"
proof -
  let ?os = "bounds 10 20"
  have b: "number_or (minPx ?os) (Fin 12) = Fin 10 \<and> number_or (maxPx ?os) (Fin 28) = Fin 20 \<and>
           \<bar>10::int\<bar> \<le> 2 ^ 52 \<and> \<bar>20::int\<bar> \<le> 2 ^ 52"
    by (simp add: bounds_def)
  note all = fitText_frame_effect [where el = three_lines and os = ?os]
  from all b obtain r where r: "fitText three_lines ?os = Some r"
    and i: "\<forall>w\<in>set (writes r). is_int_px w"
    by blast
  from r have "r = \<lparr>elem = three_lines\<lparr>fontSize := ''14px''\<rparr>,
           writes = [''20px'', ''15px'', ''12px'', ''13px'', ''14px'', ''14px''],
           reads = 5, rounds = 4\<rparr>"
    by (simp add: three_lines_run)
  with r i show ?thesis
    by (simp add: list_all_iff)
qed

text \<open>
  C10 (card minimum). For every width, every gap and every column count \<open>cols \<ge> 1\<close>,
  \<^verbatim>\<open>computeCardMin\<close> returns a value of at least 240; \<^verbatim>\<open>chooseColumns\<close> returns a
  count between 1 and 5, so the composition of the two returns at least 240 as well.
\<close>

theorem computeCardMin_floor:
  assumes "1 \<le> cols"
  shows "(\<exists>m. computeCardMin width cols gapPx = Some m \<and> 240 \<le> m) \<and>
         1 \<le> chooseColumns width \<and> chooseColumns width \<le> 5 \<and>
         (\<exists>m. computeCardMin width (chooseColumns width) gapPx = Some m \<and> 240 \<le> m)"
  using assms by (simp add: computeCardMin_def chooseColumns_def Let_def)

theorem computeCardMin_floor_witness:
  "(1::int) \<le> 3 \<and> (\<exists>m. computeCardMin 1000 3 16 = Some m \<and> 240 \<le> m) \<and>
   1 \<le> chooseColumns 1000 \<and> chooseColumns 1000 \<le> 5 \<and>
   computeCardMin 1000 3 16 = Some 322 \<and> computeCardMin 300 2 16 = Some 240"
proof -
  have "computeCardMin 1000 3 16 = Some 322" "computeCardMin 300 2 16 = Some 240"
    by (simp_all add: computeCardMin_def)
  with computeCardMin_floor [where cols = 3 and width = 1000 and gapPx = 16] show ?thesis
    by simp
qed

section \<open>Further properties of activation\<close>

text \<open>
  Activation on a configured target: with \<^verbatim>\<open>data-fit-min="10"\<close>,
  \<^verbatim>\<open>data-fit-max="20"\<close> and content that overflows at any size above 14, the first
  application of the policy uses the bounds 10 and 20 and leaves the font size at \<open>14px\<close>
  after five measurements.
\<close>

theorem enableFitText_converges:
  "fit_opts wired = bounds 10 20 \<and>
   map_option (\<lambda>r. fontSize (elem r)) (enableFitText_first wired) = Some ''14px'' \<and>
   map_option reads (enableFitText_first wired) = Some 5"
  by code_simp

text \<open>
  Default bounds: a target whose \<^verbatim>\<open>data-fit-min\<close> and \<^verbatim>\<open>data-fit-max\<close> attributes are
  missing or empty is fitted with the bounds 12 and 28.
\<close>

theorem fit_opts_defaults:
  assumes "attributes el ''data-fit-min'' = None \<or> attributes el ''data-fit-min'' = Some []"
    and "attributes el ''data-fit-max'' = None \<or> attributes el ''data-fit-max'' = Some []"
  shows "fit_opts el = bounds 12 28"
proof -
  have "parseInt10 ''12'' = Fin 12" "parseInt10 ''28'' = Fin 28"
    by code_simp+
  moreover from assms have "attr_or el ''data-fit-min'' ''12'' = ''12''"
    "attr_or el ''data-fit-max'' ''28'' = ''28''"
    by (auto simp: attr_or_def)
  ultimately show ?thesis
    by (simp add: fit_opts_def bounds_def)
qed

theorem fit_opts_defaults_witness:
  "attributes roomy ''data-fit-min'' = None \<and> attributes roomy ''data-fit-max'' = None \<and>
   fit_opts roomy = bounds 12 28"
proof -
  have a: "attributes roomy ''data-fit-min'' = None" "attributes roomy ''data-fit-max'' = None"
    by (simp_all add: roomy_def blank_def)
  with fit_opts_defaults [of roomy] show ?thesis by simp
qed

end
